theory Spec2Isabelle
  imports Main "HOL-Library.Word"
begin

section \<open>The markdown utilities as functions\<close>

text \<open>
  A shallow embedding of \<^verbatim>\<open>src/language-markdown/utils.js\<close>. A JavaScript string is a
  sequence of UTF-16 code units, so a character is a 16-bit word and a string is a list
  of them; \<^verbatim>\<open>length\<close> counts code units, as \<^verbatim>\<open>String.prototype.length\<close> does.
\<close>

subsection \<open>Strings and the classifier tables\<close>

type_synonym jschar = "16 word"

type_synonym jsstring = "jschar list"

text \<open>
  Modelled from the spec: the classifier tables \<^verbatim>\<open>cjkPattern\<close>, \<^verbatim>\<open>kRegex\<close> and
  \<^verbatim>\<open>punctuationPattern\<close> are imported from \<^verbatim>\<open>constants.evaluate.js\<close>, which is not part
  of the sources at hand. The spec describes them as static predicates on characters
  ("is CJK character", "is Korean character", "is punctuation character") built from
  Unicode range data, and the CJK pattern as matching a single CJK character. They are
  parameters of the model: every general theorem holds for all three predicates.
\<close>

record classifier =
  cjkPattern :: "jschar \<Rightarrow> bool"
  kRegex :: "jschar \<Rightarrow> bool"
  punctuationPattern :: "jschar \<Rightarrow> bool"

text \<open>\<^verbatim>\<open>re.test(s)\<close> for a pattern that is a character class: some character of \<open>s\<close> is in it.\<close>

definition regex_test :: "(jschar \<Rightarrow> bool) \<Rightarrow> jsstring \<Rightarrow> bool" where
  "regex_test P s = list_ex P s"

text \<open>The characters of \<^verbatim>\<open>[\t\n ]\<close>: tab, newline, space.\<close>

definition isSplitWhitespace :: "jschar \<Rightarrow> bool" where
  "isSplitWhitespace c = (c = 0x09 \<or> c = 0x0A \<or> c = 0x20)"

subsection \<open>\<^verbatim>\<open>String.prototype.split\<close> with a capturing separator\<close>

text \<open>
  \<^verbatim>\<open>text.split(/([\t\n ]+)/)\<close>: the separator is the leftmost maximal run of tab, newline
  and space; the captured run is spliced into the result, which therefore alternates
  between text (even indices) and separators (odd indices). A string without a
  separator, the empty string included, gives the one-element array holding it; a
  string that ends with a separator gives a final empty string.
\<close>

function split_whitespace :: "jsstring \<Rightarrow> jsstring list" where
  "split_whitespace s =
     (case dropWhile (\<lambda>c. \<not> isSplitWhitespace c) s of
        [] \<Rightarrow> [s]
      | c # rest \<Rightarrow>
          takeWhile (\<lambda>c. \<not> isSplitWhitespace c) s
            # (c # takeWhile isSplitWhitespace rest)
            # split_whitespace (dropWhile isSplitWhitespace rest))"
  by pat_completeness auto

termination
proof (relation "measure length")
  fix s :: jsstring and c rest
  assume h: "dropWhile (\<lambda>c. \<not> isSplitWhitespace c) s = c # rest"
  have "length (dropWhile isSplitWhitespace rest) \<le> length rest"
    by (rule length_dropWhile_le)
  moreover have "length (c # rest) \<le> length s"
    unfolding h [symmetric] by (rule length_dropWhile_le)
  ultimately show "(dropWhile isSplitWhitespace rest, s) \<in> measure length"
    by simp
qed simp

declare split_whitespace.simps [simp del]

text \<open>
  \<^verbatim>\<open>token.split(new RegExp(`(${cjkPattern})`))\<close>: the separator is the leftmost single
  CJK character.
\<close>

function split_cjk :: "(jschar \<Rightarrow> bool) \<Rightarrow> jsstring \<Rightarrow> jsstring list" where
  "split_cjk P s =
     (case dropWhile (\<lambda>c. \<not> P c) s of
        [] \<Rightarrow> [s]
      | c # rest \<Rightarrow> takeWhile (\<lambda>c. \<not> P c) s # [c] # split_cjk P rest)"
  by pat_completeness auto

termination
proof (relation "measure (\<lambda>(P, s). length s)")
  fix P :: "jschar \<Rightarrow> bool" and s :: jsstring and c rest
  assume h: "dropWhile (\<lambda>c. \<not> P c) s = c # rest"
  have "length (c # rest) \<le> length s"
    unfolding h [symmetric] by (rule length_dropWhile_le)
  then show "((P, rest), (P, s)) \<in> measure (\<lambda>(P, s). length s)"
    by simp
qed simp

declare split_cjk.simps [simp del]

subsection \<open>Text nodes\<close>

datatype WordKind = KIND_NON_CJK | KIND_CJ_LETTER | KIND_K_LETTER | KIND_CJK_PUNCTUATION

datatype TextNode =
    WhitespaceNode jsstring
  | WordNode jsstring WordKind bool bool

fun node_value :: "TextNode \<Rightarrow> jsstring" where
  "node_value (WhitespaceNode v) = v"
| "node_value (WordNode v k l t) = v"

text \<open>A whitespace node has no \<^verbatim>\<open>kind\<close> property (\<^verbatim>\<open>kind?: never\<close>).\<close>

fun node_kind :: "TextNode \<Rightarrow> WordKind option" where
  "node_kind (WhitespaceNode v) = None"
| "node_kind (WordNode v k l t) = Some k"

fun isWord :: "TextNode \<Rightarrow> bool" where
  "isWord (WordNode v k l t) = True"
| "isWord (WhitespaceNode v) = False"

fun isWhitespace :: "TextNode \<Rightarrow> bool" where
  "isWhitespace (WhitespaceNode v) = True"
| "isWhitespace (WordNode v k l t) = False"

subsection \<open>\<^verbatim>\<open>appendNode\<close>\<close>

definition FULLWIDTH_SPACE :: jschar where
  "FULLWIDTH_SPACE = 0x3000"

definition isBetween :: "TextNode \<Rightarrow> TextNode \<Rightarrow> WordKind \<Rightarrow> WordKind \<Rightarrow> bool" where
  "isBetween lastNode node kind1 kind2 =
     ((node_kind lastNode = Some kind1 \<and> node_kind node = Some kind2) \<or>
      (node_kind lastNode = Some kind2 \<and> node_kind node = Some kind1))"

text \<open>
  \<^verbatim>\<open>nodes.at(-1)\<close> is \<^verbatim>\<open>undefined\<close> on the empty array, and then
  \<^verbatim>\<open>lastNode?.type === "word"\<close> is false.
\<close>

definition appendNode :: "TextNode list \<Rightarrow> TextNode \<Rightarrow> TextNode list" where
  "appendNode nodes node =
     (case (if nodes = [] then None else Some (last nodes)) of
        None \<Rightarrow> nodes @ [node]
      | Some lastNode \<Rightarrow>
          if isWord lastNode
             \<and> \<not> isBetween lastNode node KIND_NON_CJK KIND_CJK_PUNCTUATION
             \<and> \<not> list_ex (\<lambda>v. regex_test (\<lambda>c. c = FULLWIDTH_SPACE) v)
                   [node_value lastNode, node_value node]
          then nodes @ [WhitespaceNode []] @ [node]
          else nodes @ [node])"

subsection \<open>\<^verbatim>\<open>splitText\<close>\<close>

text \<open>
  The inner loop over \<^verbatim>\<open>innerTokens.entries()\<close>; \<open>len\<close> is \<^verbatim>\<open>innerTokens.length\<close>.
  The test \<^verbatim>\<open>innerIndex === innerTokens.length - 1\<close> is written \<open>Suc innerIndex = len\<close>,
  which avoids the truncated subtraction of \<open>nat\<close>. \<^verbatim>\<open>innerToken[0]\<close> and
  \<^verbatim>\<open>innerToken.at(-1)\<close> are read only from a non-empty token.
\<close>

fun innerLoop ::
  "classifier \<Rightarrow> nat \<Rightarrow> (nat \<times> jsstring) list \<Rightarrow> TextNode list \<Rightarrow> TextNode list" where
  "innerLoop cls len [] nodes = nodes"
| "innerLoop cls len ((innerIndex, innerToken) # rest) nodes =
     (if (innerIndex = 0 \<or> Suc innerIndex = len) \<and> innerToken = []
      then innerLoop cls len rest nodes
      else if innerIndex mod 2 = 0
      then (if innerToken \<noteq> []
            then innerLoop cls len rest
                   (appendNode nodes
                      (WordNode innerToken KIND_NON_CJK
                         (regex_test (punctuationPattern cls) [hd innerToken])
                         (regex_test (punctuationPattern cls) [last innerToken])))
            else innerLoop cls len rest nodes)
      else innerLoop cls len rest
             (appendNode nodes
                (if regex_test (punctuationPattern cls) innerToken
                 then WordNode innerToken KIND_CJK_PUNCTUATION True True
                 else WordNode innerToken
                        (if regex_test (kRegex cls) innerToken
                         then KIND_K_LETTER else KIND_CJ_LETTER)
                        False False)))"

text \<open>The outer loop over \<^verbatim>\<open>tokens.entries()\<close>; \<open>len\<close> is \<^verbatim>\<open>tokens.length\<close>.\<close>

definition NEWLINE :: jschar where
  "NEWLINE = 0x0A"

definition SPACE :: jschar where
  "SPACE = 0x20"

fun outerLoop ::
  "classifier \<Rightarrow> nat \<Rightarrow> (nat \<times> jsstring) list \<Rightarrow> TextNode list \<Rightarrow> TextNode list" where
  "outerLoop cls len [] nodes = nodes"
| "outerLoop cls len ((index, token) # rest) nodes =
     (if index mod 2 = 1
      then outerLoop cls len rest
             (nodes @ [WhitespaceNode
                         (if regex_test (\<lambda>c. c = NEWLINE) token then [NEWLINE] else [SPACE])])
      else if (index = 0 \<or> Suc index = len) \<and> token = []
      then outerLoop cls len rest nodes
      else outerLoop cls len rest
             (let innerTokens = split_cjk (cjkPattern cls) token
              in innerLoop cls (length innerTokens) (enumerate 0 innerTokens) nodes))"

text \<open>
  The development-time check: for every \<open>i\<close> from 1 below \<^verbatim>\<open>nodes.length\<close>, the nodes
  at \<open>i - 1\<close> and \<open>i\<close> are not both whitespace. A failed \<^verbatim>\<open>assert\<close> throws.
\<close>

datatype error = AssertionError | TypeError

definition assertionsHold :: "TextNode list \<Rightarrow> bool" where
  "assertionsHold nodes =
     list_all (\<lambda>i. \<not> (isWhitespace (nodes ! (i - 1)) \<and> isWhitespace (nodes ! i)))
       [1 ..< length nodes]"

text \<open>\<open>production\<close> stands for \<^verbatim>\<open>process.env.NODE_ENV === "production"\<close>.\<close>

definition splitText :: "classifier \<Rightarrow> bool \<Rightarrow> jsstring \<Rightarrow> error + TextNode list" where
  "splitText cls production text =
     (let tokens = split_whitespace text;
          nodes = outerLoop cls (length tokens) (enumerate 0 tokens) []
      in if \<not> production \<and> \<not> assertionsHold nodes then Inl AssertionError else Inr nodes)"

subsection \<open>Notions used in the proofs about \<^verbatim>\<open>splitText\<close>\<close>

text \<open>
  The shape of the array that the split at whitespace returns: text and separators
  alternate, beginning and ending with text; a separator is a non-empty run of
  separator characters, the text holds none, and only the first and the last text may
  be empty (the flag tells whether the list starts at the first).
\<close>

fun ws_shape :: "bool \<Rightarrow> jsstring list \<Rightarrow> bool" where
  "ws_shape first [] = False"
| "ws_shape first [e] = (\<forall>c\<in>set e. \<not> isSplitWhitespace c)"
| "ws_shape first (e # s # rest) =
     ((\<forall>c\<in>set e. \<not> isSplitWhitespace c) \<and> (first \<or> e \<noteq> []) \<and>
      s \<noteq> [] \<and> (\<forall>c\<in>set s. isSplitWhitespace c) \<and> ws_shape False rest)"

text \<open>
  The shape of the array that the split at CJK characters returns: runs without CJK
  characters alternate with single CJK characters, beginning and ending with a run.
\<close>

fun cjk_shape :: "(jschar \<Rightarrow> bool) \<Rightarrow> jsstring list \<Rightarrow> bool" where
  "cjk_shape P [] = False"
| "cjk_shape P [e] = (\<forall>c\<in>set e. \<not> P c)"
| "cjk_shape P (e # s # rest) =
     ((\<forall>c\<in>set e. \<not> P c) \<and> (\<exists>c. s = [c] \<and> P c) \<and> cjk_shape P rest)"

text \<open>The word nodes that the inner loop builds, and the words of a whole chunk in
  the order in which it appends them.\<close>

definition nonCjkWord :: "classifier \<Rightarrow> jsstring \<Rightarrow> TextNode" where
  "nonCjkWord cls t =
     WordNode t KIND_NON_CJK (punctuationPattern cls (hd t)) (punctuationPattern cls (last t))"

definition cjkWord :: "classifier \<Rightarrow> jschar \<Rightarrow> TextNode" where
  "cjkWord cls c =
     (if punctuationPattern cls c then WordNode [c] KIND_CJK_PUNCTUATION True True
      else WordNode [c] (if kRegex cls c then KIND_K_LETTER else KIND_CJ_LETTER) False False)"

fun chunk_words :: "classifier \<Rightarrow> jsstring list \<Rightarrow> TextNode list" where
  "chunk_words cls [] = []"
| "chunk_words cls [e] = (if e = [] then [] else [nonCjkWord cls e])"
| "chunk_words cls (e # s # rest) =
     (if e = [] then [] else [nonCjkWord cls e]) @ cjkWord cls (hd s) # chunk_words cls rest"

text \<open>The zero-width breakpoint.\<close>

definition ZERO_WIDTH :: TextNode where
  "ZERO_WIDTH = WhitespaceNode []"

definition hasFullwidthSpace :: "TextNode \<Rightarrow> bool" where
  "hasFullwidthSpace n = (FULLWIDTH_SPACE \<in> set (node_value n))"

text \<open>
  The test of \<^verbatim>\<open>appendNode\<close> on the last node (if any) and the new one, and the nodes
  that a run of calls of \<^verbatim>\<open>appendNode\<close> adds after a last node \<open>prev\<close>.
\<close>

definition needsBreak :: "TextNode option \<Rightarrow> TextNode \<Rightarrow> bool" where
  "needsBreak prev n =
     (case prev of None \<Rightarrow> False
      | Some l \<Rightarrow> isWord l \<and> \<not> isBetween l n KIND_NON_CJK KIND_CJK_PUNCTUATION
                  \<and> \<not> hasFullwidthSpace l \<and> \<not> hasFullwidthSpace n)"

fun glue :: "TextNode option \<Rightarrow> TextNode list \<Rightarrow> TextNode list" where
  "glue prev [] = []"
| "glue prev (w # ws) = (if needsBreak prev w then [ZERO_WIDTH] else []) @ w # glue (Some w) ws"

text \<open>\<^verbatim>\<open>nodes.at(-1)\<close>, and the value of the whitespace node pushed for a separator.\<close>

definition lastNode :: "TextNode list \<Rightarrow> TextNode option" where
  "lastNode nodes = (if nodes = [] then None else Some (last nodes))"

definition whitespaceValue :: "jsstring \<Rightarrow> jsstring" where
  "whitespaceValue s = (if NEWLINE \<in> set s then [NEWLINE] else [SPACE])"

text \<open>
  The output read front to back: the nodes of one chunk of text, and the nodes of the
  whole array of chunks and separators.
\<close>

definition chunk_nodes :: "classifier \<Rightarrow> jsstring \<Rightarrow> TextNode list" where
  "chunk_nodes cls e = glue None (chunk_words cls (split_cjk (cjkPattern cls) e))"

fun assemble :: "classifier \<Rightarrow> jsstring list \<Rightarrow> TextNode list" where
  "assemble cls [] = []"
| "assemble cls [e] = chunk_nodes cls e"
| "assemble cls (e # s # rest) =
     chunk_nodes cls e @ WhitespaceNode (whitespaceValue s) # assemble cls rest"

text \<open>The nodes of a text: those of the array into which it is split at whitespace.\<close>

definition splitNodes :: "classifier \<Rightarrow> jsstring \<Rightarrow> TextNode list" where
  "splitNodes cls text = assemble cls (split_whitespace text)"

text \<open>The pair of neighbours that the development-time assertion forbids.\<close>

definition bothWhitespace :: "TextNode \<Rightarrow> TextNode \<Rightarrow> bool" where
  "bothWhitespace a b = (isWhitespace a \<and> isWhitespace b)"


text \<open>
  What a word node of each kind holds: a non-CJK word is a non-empty run of characters
  that are neither CJK nor separators; a word of any other kind is one CJK character.
\<close>

fun wordContent :: "classifier \<Rightarrow> TextNode \<Rightarrow> bool" where
  "wordContent cls (WhitespaceNode v) = True"
| "wordContent cls (WordNode v k l t) =
     (if k = KIND_NON_CJK
      then v \<noteq> [] \<and> list_all (\<lambda>c. \<not> cjkPattern cls c \<and> \<not> isSplitWhitespace c) v
      else length v = 1 \<and> list_all (cjkPattern cls) v)"

text \<open>
  Modelled from the spec: one instance of the classifier tables that
  \<^verbatim>\<open>constants.evaluate.js\<close> (not part of the sources at hand) builds from Unicode range
  data. CJK characters are taken to be those of CJK Symbols and Punctuation, Hiragana
  and Katakana (U+3000 to U+30FF), the CJK Unified Ideographs (U+4E00 to U+9FFF), the
  Hangul Syllables (U+AC00 to U+D7A3) and the fullwidth forms (U+FF01 to U+FF60); Korean
  characters to be the Hangul Syllables; punctuation to be the ASCII punctuation
  characters and the CJK marks U+3001 to U+3003, U+FF01 and U+FF0C. It is the concrete
  input of the examples below; no general theorem depends on it.
\<close>

definition sampleTables :: classifier where
  "sampleTables = \<lparr>
     cjkPattern = (\<lambda>c. (0x3000 \<le> c \<and> c \<le> 0x30FF) \<or> (0x4E00 \<le> c \<and> c \<le> 0x9FFF)
                      \<or> (0xAC00 \<le> c \<and> c \<le> 0xD7A3) \<or> (0xFF01 \<le> c \<and> c \<le> 0xFF60)),
     kRegex = (\<lambda>c. 0xAC00 \<le> c \<and> c \<le> 0xD7A3),
     punctuationPattern = (\<lambda>c. (0x21 \<le> c \<and> c \<le> 0x2F) \<or> (0x3A \<le> c \<and> c \<le> 0x40)
                      \<or> (0x5B \<le> c \<and> c \<le> 0x60) \<or> (0x7B \<le> c \<and> c \<le> 0x7E)
                      \<or> (0x3001 \<le> c \<and> c \<le> 0x3003) \<or> c = 0xFF01 \<or> c = 0xFF0C) \<rparr>"

text \<open>The strings of the spec's examples: \<^verbatim>\<open>"hello"\<close> followed by U+4E16 U+754C, and
  \<^verbatim>\<open>"foo"\<close> followed by the ideographic full stop U+3002.\<close>

definition text_hello_world :: jsstring where
  "text_hello_world = [0x68, 0x65, 0x6C, 0x6C, 0x6F, 0x4E16, 0x754C]"

definition text_foo_stop :: jsstring where
  "text_foo_stop = [0x66, 0x6F, 0x6F, 0x3002]"

text \<open>
  The breakpoint rule in the spec's words: between two word tokens a zero-width
  whitespace token is due when the unordered pair of their kinds is not exactly
  \<open>{NonCjk, CjkPunctuation}\<close> and neither value contains the full-width space.
\<close>

definition spec_breakpoint :: "TextNode \<Rightarrow> TextNode \<Rightarrow> bool" where
  "spec_breakpoint a b =
     (isWord a \<and> isWord b
      \<and> {node_kind a, node_kind b} \<noteq> {Some KIND_NON_CJK, Some KIND_CJK_PUNCTUATION}
      \<and> FULLWIDTH_SPACE \<notin> set (node_value a) \<and> FULLWIDTH_SPACE \<notin> set (node_value b))"

text \<open>The rule applied along a sequence of tokens that holds no zero-width token yet.\<close>

fun spec_insert_breakpoints :: "TextNode list \<Rightarrow> TextNode list" where
  "spec_insert_breakpoints (a # b # rest) =
     a # (if spec_breakpoint a b then [WhitespaceNode []] else [])
       @ spec_insert_breakpoints (b # rest)"
| "spec_insert_breakpoints [a] = [a]"
| "spec_insert_breakpoints [] = []"

subsection \<open>Document nodes\<close>

text \<open>
  A node of the parsed document, as far as these functions read it: the \<^verbatim>\<open>type\<close> tag,
  the \<^verbatim>\<open>ordered\<close> flag of a list (absent reads as false), the start and end offsets of
  \<^verbatim>\<open>position\<close>, and the optional \<^verbatim>\<open>children\<close> sequence.
\<close>

datatype mdNode =
  MdNode (ntype: string) (ordered: bool) (startOffset: nat) (endOffset: nat)
         (children: "mdNode list option")

subsection \<open>\<^verbatim>\<open>getOrderedListItemInfo\<close>\<close>

text \<open>
  \<^verbatim>\<open>originalText.slice(start, end)\<close> for two non-negative offsets: both are clamped to the
  length, and the span is empty when the end does not exceed the start.
\<close>

definition slice :: "jsstring \<Rightarrow> nat \<Rightarrow> nat \<Rightarrow> jsstring" where
  "slice s start end' =
     (let len = length s; from = min start len; to = min end' len
      in take (to - from) (drop from s))"

text \<open>The character classes \<^verbatim>\<open>\s\<close> and \<^verbatim>\<open>\d\<close> of a pattern without the unicode flag,
  and the marker alternative \<^verbatim>\<open>\.|\)\<close>.\<close>

definition isRegexSpace :: "jschar \<Rightarrow> bool" where
  "isRegexSpace c =
     ((0x09 \<le> c \<and> c \<le> 0x0D) \<or> c = 0x20 \<or> c = 0xA0 \<or> c = 0x1680
      \<or> (0x2000 \<le> c \<and> c \<le> 0x200A) \<or> c = 0x2028 \<or> c = 0x2029 \<or> c = 0x202F
      \<or> c = 0x205F \<or> c = 0x3000 \<or> c = 0xFEFF)"

definition isRegexDigit :: "jschar \<Rightarrow> bool" where
  "isRegexDigit c = (0x30 \<le> c \<and> c \<le> 0x39)"

definition isMarker :: "jschar \<Rightarrow> bool" where
  "isMarker c = (c = 0x2E \<or> c = 0x29)"

record itemInfo =
  numberText :: jsstring
  marker :: jschar
  leadingSpaces :: jsstring

text \<open>
  \<^verbatim>\<open>s.match(/^\s*(\d+)(\.|\))(\s*)/)\<close>. The three classes are disjoint, so the greedy
  match is the only one: backtracking into a shorter run of spaces or digits leaves a
  space where a digit is due, or a digit where the marker is due. The result is the
  three captured groups, or \<open>None\<close> for \<^verbatim>\<open>null\<close>.
\<close>

definition matchItem :: "jsstring \<Rightarrow> itemInfo option" where
  "matchItem s =
     (let afterSpaces = dropWhile isRegexSpace s;
          digits = takeWhile isRegexDigit afterSpaces
      in if digits = [] then None
         else case dropWhile isRegexDigit afterSpaces of
                [] \<Rightarrow> None
              | m # afterMarker \<Rightarrow>
                  if isMarker m
                  then Some \<lparr> numberText = digits, marker = m,
                              leadingSpaces = takeWhile isRegexSpace afterMarker \<rparr>
                  else None)"

text \<open>Destructuring \<^verbatim>\<open>null\<close> throws a \<^verbatim>\<open>TypeError\<close>.\<close>

definition getOrderedListItemInfo :: "mdNode \<Rightarrow> jsstring \<Rightarrow> error + itemInfo" where
  "getOrderedListItemInfo orderListItem originalText =
     (case matchItem (slice originalText (startOffset orderListItem) (endOffset orderListItem)) of
        None \<Rightarrow> Inl TypeError
      | Some info \<Rightarrow> Inr info)"

subsection \<open>\<^verbatim>\<open>hasGitDiffFriendlyOrderedList\<close>\<close>

text \<open>
  \<^verbatim>\<open>Number(numberText)\<close> of a non-empty string of decimal digits is the double nearest to
  its decimal value. The code compares it with 0 and 1 only, and the double is 0 or 1
  exactly when the decimal value is, so the value itself stands for it.
\<close>

definition Number :: "jsstring \<Rightarrow> nat" where
  "Number s = foldl (\<lambda>n c. 10 * n + unat (c - 0x30)) 0 s"

text \<open>Reading \<^verbatim>\<open>node.children.length\<close> of a node without children throws.\<close>

definition hasGitDiffFriendlyOrderedList :: "mdNode \<Rightarrow> jsstring \<Rightarrow> error + bool" where
  "hasGitDiffFriendlyOrderedList node originalText =
     (if \<not> ordered node then Inr False
      else (case children node of
        None \<Rightarrow> Inl TypeError
      | Some cs \<Rightarrow>
          if length cs < 2 then Inr False
          else (case getOrderedListItemInfo (cs ! 0) originalText of
            Inl e \<Rightarrow> Inl e
          | Inr first \<Rightarrow>
              (case getOrderedListItemInfo (cs ! 1) originalText of
                 Inl e \<Rightarrow> Inl e
               | Inr second \<Rightarrow>
                   (let firstNumber = Number (numberText first);
                        secondNumber = Number (numberText second)
                    in if firstNumber = 0 \<and> length cs > 2
                       then (case getOrderedListItemInfo (cs ! 2) originalText of
                               Inl e \<Rightarrow> Inl e
                             | Inr third \<Rightarrow>
                                 (let thirdNumber = Number (numberText third)
                                  in Inr (secondNumber = 1 \<and> thirdNumber = 1)))
                       else Inr (secondNumber = 1))))))"

subsection \<open>\<^verbatim>\<open>isAutolink\<close>\<close>

text \<open>
  Modelled from the spec: \<^verbatim>\<open>locStart\<close> and \<^verbatim>\<open>locEnd\<close> come from \<^verbatim>\<open>loc.js\<close>, which is not
  part of the sources at hand; they return the recorded start and end source positions
  of a node.
\<close>

definition locStart :: "mdNode \<Rightarrow> nat" where
  "locStart node = startOffset node"

definition locEnd :: "mdNode \<Rightarrow> nat" where
  "locEnd node = endOffset node"

text \<open>
  The argument may be \<^verbatim>\<open>null\<close> or \<^verbatim>\<open>undefined\<close> (\<open>None\<close>): \<^verbatim>\<open>node?.type\<close> is then
  \<^verbatim>\<open>undefined\<close>, which differs from \<^verbatim>\<open>"link"\<close>. Reading \<^verbatim>\<open>node.children.length\<close> of a
  link without children throws.
\<close>

definition isAutolink :: "mdNode option \<Rightarrow> error + bool" where
  "isAutolink n =
     (case n of
        None \<Rightarrow> Inr False
      | Some node \<Rightarrow>
          if ntype node \<noteq> ''link'' then Inr False
          else (case children node of
            None \<Rightarrow> Inl TypeError
          | Some cs \<Rightarrow>
              if length cs \<noteq> 1 then Inr False
              else (let child = cs ! 0
                    in Inr (locStart node = locStart child \<and> locEnd node = locEnd child))))"

text \<open>
  The pattern in the spec's words, read as written: optional whitespace, digits, a
  marker character, whitespace. The first run may be empty; the last one is not marked
  optional, so at least one whitespace character follows the marker.
\<close>

definition spec_item_pattern :: "jsstring \<Rightarrow> bool" where
  "spec_item_pattern s =
     (let afterSpaces = dropWhile isRegexSpace s
      in takeWhile isRegexDigit afterSpaces \<noteq> []
         \<and> (case dropWhile isRegexDigit afterSpaces of
               m # c # rest \<Rightarrow> isMarker m \<and> isRegexSpace c
             | _ \<Rightarrow> False))"

text \<open>A list item spanning the whole of the two-character source \<^verbatim>\<open>1.\<close> (an empty item).\<close>

definition text_one_dot :: jsstring where
  "text_one_dot = [0x31, 0x2E]"

definition item_one_dot :: mdNode where
  "item_one_dot = MdNode ''listItem'' False 0 2 (Some [])"

text \<open>
  A source with four list items, \<^verbatim>\<open>0. a\<close>, \<^verbatim>\<open>1. b\<close>, \<^verbatim>\<open>1. c\<close> and \<^verbatim>\<open>2. d\<close>, one per line, and the
  item nodes that span them.
\<close>

definition text_items :: jsstring where
  "text_items =
     [0x30, 0x2E, 0x20, 0x61, 0x0A, 0x31, 0x2E, 0x20, 0x62, 0x0A,
      0x31, 0x2E, 0x20, 0x63, 0x0A, 0x32, 0x2E, 0x20, 0x64]"

definition item_at :: "nat \<Rightarrow> mdNode" where
  "item_at start = MdNode ''listItem'' False start (start + 4) (Some [])"

definition list_of :: "bool \<Rightarrow> nat list \<Rightarrow> mdNode" where
  "list_of ord starts = MdNode ''list'' ord 0 19 (Some (map item_at starts))"

text \<open>A link node spanning the offsets 0 to 20 with the given children.\<close>

definition link_with :: "mdNode list option \<Rightarrow> mdNode" where
  "link_with cs = MdNode ''link'' False 0 20 cs"

definition text_span :: "nat \<Rightarrow> nat \<Rightarrow> mdNode" where
  "text_span s e = MdNode ''text'' False s e None"

subsection \<open>\<^verbatim>\<open>mapAst\<close>\<close>

text \<open>
  \<^verbatim>\<open>mapAst\<close> creates objects and assigns to a field, and its contract is about which
  objects it writes to, so nodes live in a store. An address is an index into the
  store; allocation appends a cell, so an address is fresh exactly when it is not below
  the length of the store. A cell is a node object, with its properties other than
  \<^verbatim>\<open>children\<close> (of any type \<open>'p\<close>) and the reference to its \<^verbatim>\<open>children\<close> array if it has
  one, or an array of node references.
\<close>

type_synonym addr = nat

datatype 'p cell = ObjCell 'p "addr option" | ArrCell "addr list"

type_synonym 'p heap = "'p cell list"

definition cell_at :: "'p heap \<Rightarrow> addr \<Rightarrow> 'p cell option" where
  "cell_at h a = (if a < length h then Some (h ! a) else None)"


text \<open>
  The assignment \<^verbatim>\<open>newNode.children = ...\<close>: the \<^verbatim>\<open>children\<close> field of the object at \<open>a\<close> is
  set, its other properties stay as they are.
\<close>

definition set_children :: "'p heap \<Rightarrow> addr \<Rightarrow> addr \<Rightarrow> 'p heap" where
  "set_children h a arr =
     (case cell_at h a of
        Some (ObjCell props kids) \<Rightarrow> h[a := ObjCell props (Some arr)]
      | _ \<Rightarrow> h)"












subsection \<open>Notions used in the proofs about \<^verbatim>\<open>mapAst\<close>\<close>




section \<open>Properties of \<^verbatim>\<open>splitText\<close>\<close>

subsection \<open>The two splits\<close>

lemma dropWhile_Cons_hd: "dropWhile Q s = c # rest \<Longrightarrow> \<not> Q c"
  by (metis hd_dropWhile list.sel(1) list.distinct(1))

lemma takeWhile_nonempty: "s \<noteq> [] \<Longrightarrow> Q (hd s) \<Longrightarrow> takeWhile Q s \<noteq> []"
  by (cases s) auto

lemma dropWhile_hd_or_empty: "dropWhile Q s = [] \<or> \<not> Q (hd (dropWhile Q s))"
  by (metis hd_dropWhile)

lemma split_whitespace_Nil:
  "dropWhile (\<lambda>c. \<not> isSplitWhitespace c) s = [] \<Longrightarrow> split_whitespace s = [s]"
  by (subst split_whitespace.simps) (simp only: list.case)

lemma split_whitespace_Cons:
  "dropWhile (\<lambda>c. \<not> isSplitWhitespace c) s = c # rest \<Longrightarrow>
   split_whitespace s =
     takeWhile (\<lambda>c. \<not> isSplitWhitespace c) s
       # (c # takeWhile isSplitWhitespace rest)
       # split_whitespace (dropWhile isSplitWhitespace rest)"
  by (subst split_whitespace.simps) (simp only: list.case)

lemma split_cjk_Nil:
  "dropWhile (\<lambda>c. \<not> P c) s = [] \<Longrightarrow> split_cjk P s = [s]"
  by (subst split_cjk.simps) (simp only: list.case)

lemma split_cjk_Cons:
  "dropWhile (\<lambda>c. \<not> P c) s = c # rest \<Longrightarrow>
   split_cjk P s = takeWhile (\<lambda>c. \<not> P c) s # [c] # split_cjk P rest"
  by (subst split_cjk.simps) (simp only: list.case)

lemma ws_shape_split_whitespace:
  "first \<or> s = [] \<or> \<not> isSplitWhitespace (hd s) \<Longrightarrow> ws_shape first (split_whitespace s)"
proof (induction s arbitrary: first rule: split_whitespace.induct)
  case (1 s)
  show ?case
  proof (cases "dropWhile (\<lambda>c. \<not> isSplitWhitespace c) s")
    case Nil
    then have "\<forall>c\<in>set s. \<not> isSplitWhitespace c"
      by simp
    then show ?thesis
      by (simp add: split_whitespace_Nil [OF Nil])
  next
    case (Cons c rest)
    have c: "isSplitWhitespace c"
      using dropWhile_Cons_hd [OF Cons] by simp
    have s: "s \<noteq> []" using Cons by auto
    have e: "first \<or> takeWhile (\<lambda>c. \<not> isSplitWhitespace c) s \<noteq> []"
      using "1.prems" s takeWhile_nonempty [of s "\<lambda>c. \<not> isSplitWhitespace c"] by blast
    have r: "ws_shape False (split_whitespace (dropWhile isSplitWhitespace rest))"
      using "1.IH" [OF Cons, of False] dropWhile_hd_or_empty [of isSplitWhitespace rest] by blast
    have t: "\<forall>x\<in>set (takeWhile isSplitWhitespace rest). isSplitWhitespace x"
      by (auto dest: set_takeWhileD)
    have u: "\<forall>x\<in>set (takeWhile (\<lambda>c. \<not> isSplitWhitespace c) s). \<not> isSplitWhitespace x"
      by (auto dest: set_takeWhileD)
    show ?thesis
      using e by (simp add: split_whitespace_Cons [OF Cons] c r t u)
  qed
qed

lemma concat_split_whitespace: "concat (split_whitespace s) = s"
proof (induction s rule: split_whitespace.induct)
  case (1 s)
  show ?case
  proof (cases "dropWhile (\<lambda>c. \<not> isSplitWhitespace c) s")
    case Nil
    show ?thesis by (simp add: split_whitespace_Nil [OF Nil])
  next
    case (Cons c rest)
    have "takeWhile (\<lambda>c. \<not> isSplitWhitespace c) s @ c # rest = s"
      using takeWhile_dropWhile_id [of "\<lambda>c. \<not> isSplitWhitespace c" s] Cons by simp
    moreover have "takeWhile isSplitWhitespace rest @ dropWhile isSplitWhitespace rest = rest"
      by simp
    ultimately show ?thesis
      using "1.IH" [OF Cons]
      by (simp add: split_whitespace_Cons [OF Cons])
  qed
qed

lemma cjk_shape_split_cjk: "cjk_shape P (split_cjk P s)"
proof (induction P s rule: split_cjk.induct)
  case (1 P s)
  show ?case
  proof (cases "dropWhile (\<lambda>c. \<not> P c) s")
    case Nil
    then have "\<forall>c\<in>set s. \<not> P c"
      by simp
    then show ?thesis
      by (simp add: split_cjk_Nil [OF Nil])
  next
    case (Cons c rest)
    have c: "P c"
      using dropWhile_Cons_hd [OF Cons] by simp
    have u: "\<forall>x\<in>set (takeWhile (\<lambda>c. \<not> P c) s). \<not> P x"
      by (auto dest: set_takeWhileD)
    show ?thesis
      using "1.IH" [OF Cons]
      by (simp add: split_cjk_Cons [OF Cons] c u)
  qed
qed

lemma concat_split_cjk: "concat (split_cjk P s) = s"
proof (induction P s rule: split_cjk.induct)
  case (1 P s)
  show ?case
  proof (cases "dropWhile (\<lambda>c. \<not> P c) s")
    case Nil
    show ?thesis by (simp add: split_cjk_Nil [OF Nil])
  next
    case (Cons c rest)
    have "takeWhile (\<lambda>c. \<not> P c) s @ c # rest = s"
      using takeWhile_dropWhile_id [of "\<lambda>c. \<not> P c" s] Cons by simp
    then show ?thesis
      using "1.IH" [OF Cons]
      by (simp add: split_cjk_Cons [OF Cons])
  qed
qed

subsection \<open>The inner loop\<close>

lemma innerLoop_chunk_words:
  "cjk_shape P toks \<Longrightarrow> even k \<Longrightarrow>
   innerLoop cls len (enumerate k toks) nodes = foldl appendNode nodes (chunk_words cls toks)"
proof (induction P toks arbitrary: k nodes rule: cjk_shape.induct)
  case (1 P)
  then show ?case by simp
next
  case (2 P e)
  then show ?case
    by (auto simp: nonCjkWord_def regex_test_def)
next
  case (3 P e s rest)
  from "3.prems" obtain c where s: "s = [c]" and sh: "cjk_shape P rest"
    by auto
  have k: "k mod 2 = 0" "Suc k mod 2 = 1" "even (Suc (Suc k))"
    using "3.prems" by (auto simp: mod_Suc)
  have ih: "\<And>nodes. innerLoop cls len (enumerate (Suc (Suc k)) rest) nodes
              = foldl appendNode nodes (chunk_words cls rest)"
    using "3.IH" [OF sh k(3)] .
  show ?case
    using k(1,2) by (simp add: s ih nonCjkWord_def cjkWord_def regex_test_def)
qed

subsection \<open>The outer loop\<close>

lemma appendNode_eq:
  "appendNode nodes n =
     nodes @ (if needsBreak (lastNode nodes) n then [ZERO_WIDTH] else []) @ [n]"
  by (simp add: appendNode_def needsBreak_def lastNode_def ZERO_WIDTH_def hasFullwidthSpace_def
      regex_test_def list_ex_iff)

lemma lastNode_snoc [simp]: "lastNode (xs @ [n]) = Some n"
  by (simp add: lastNode_def)

lemma foldl_appendNode: "foldl appendNode nodes ws = nodes @ glue (lastNode nodes) ws"
proof (induction ws arbitrary: nodes)
  case Nil
  show ?case by simp
next
  case (Cons w ws)
  have "lastNode (appendNode nodes w) = Some w"
    by (simp add: appendNode_eq lastNode_def)
  then show ?case
    by (simp add: Cons.IH) (simp add: appendNode_eq)
qed

lemma glue_not_word: "prev = None \<or> (\<exists>l. prev = Some l \<and> \<not> isWord l) \<Longrightarrow> glue prev ws = glue None ws"
  by (cases ws) (auto simp: needsBreak_def)

lemma split_cjk_empty: "split_cjk P [] = [[]]"
  by (simp add: split_cjk_Nil)

lemma chunk_nodes_empty [simp]: "chunk_nodes cls [] = []"
  by (simp add: chunk_nodes_def split_cjk_empty)

lemma outerLoop_assemble:
  "even k \<Longrightarrow> nodes = [] \<or> \<not> isWord (last nodes) \<Longrightarrow>
   outerLoop cls len (enumerate k toks) nodes = nodes @ assemble cls toks"
proof (induction cls toks arbitrary: k nodes rule: assemble.induct)
  case (1 cls)
  show ?case by simp
next
  case (2 cls e)
  have g: "glue (lastNode nodes) ws = glue None ws" for ws
    using "2.prems"(2) by (intro glue_not_word) (auto simp: lastNode_def)
  have k: "k mod 2 = 0" using "2.prems"(1) by auto
  show ?case
    using k
    by (simp add: innerLoop_chunk_words [OF cjk_shape_split_cjk] foldl_appendNode g
        chunk_nodes_def split_cjk_empty)
next
  case (3 cls e s rest)
  have g: "glue (lastNode nodes) ws = glue None ws" for ws
    using "3.prems"(2) by (intro glue_not_word) (auto simp: lastNode_def)
  have k: "k mod 2 = 0" "Suc k mod 2 = 1" "even (Suc (Suc k))"
    using "3.prems"(1) by (auto simp: mod_Suc)
  have ih: "outerLoop cls len (enumerate (Suc (Suc k)) rest) (ns @ [WhitespaceNode v])
              = (ns @ [WhitespaceNode v]) @ assemble cls rest" for ns v
    by (rule "3.IH" [OF k(3)]) simp
  have v: "(if regex_test (\<lambda>c. c = NEWLINE) s then [NEWLINE] else [SPACE]) = whitespaceValue s"
    by (auto simp: regex_test_def whitespaceValue_def list_ex_iff)
  show ?case
    using k(1,2)
    by (simp add: innerLoop_chunk_words [OF cjk_shape_split_cjk] foldl_appendNode g
        chunk_nodes_def split_cjk_empty ih v del: append_assoc)
qed

lemma outerLoop_splitNodes:
  "outerLoop cls (length (split_whitespace text)) (enumerate 0 (split_whitespace text)) []
     = splitNodes cls text"
  by (simp add: outerLoop_assemble splitNodes_def)

subsection \<open>Words and breakpoints of a chunk\<close>

lemma isWord_cjkWord [simp]: "isWord (cjkWord cls c)"
  by (simp add: cjkWord_def)

lemma isWord_nonCjkWord [simp]: "isWord (nonCjkWord cls e)"
  by (simp add: nonCjkWord_def)

lemma chunk_words_isWord: "w \<in> set (chunk_words cls toks) \<Longrightarrow> isWord w"
  by (induction cls toks rule: chunk_words.induct) (auto split: if_splits)

lemma chunk_words_nonempty:
  "cjk_shape P toks \<Longrightarrow> concat toks \<noteq> [] \<Longrightarrow> chunk_words cls toks \<noteq> []"
  by (induction P toks rule: cjk_shape.induct) auto

lemma isWord_not_ZERO_WIDTH: "isWord w \<Longrightarrow> w \<noteq> ZERO_WIDTH"
  by (auto simp: ZERO_WIDTH_def)

lemma isWord_iff_not_isWhitespace: "isWord w \<longleftrightarrow> \<not> isWhitespace w"
  by (cases w) auto

lemma glue_eq_Nil [simp]: "glue prev ws = [] \<longleftrightarrow> ws = []"
  by (cases ws) auto

lemma last_glue: "ws \<noteq> [] \<Longrightarrow> last (glue prev ws) = last ws"
  by (induction ws arbitrary: prev) auto

lemma hd_glue_None: "ws \<noteq> [] \<Longrightarrow> hd (glue None ws) = hd ws"
  by (cases ws) (auto simp: needsBreak_def)

lemma successively_glue:
  "\<forall>w\<in>set ws. isWord w \<Longrightarrow>
   successively (\<lambda>a b. \<not> bothWhitespace a b) (glue prev ws)"
proof (induction ws arbitrary: prev)
  case Nil
  show ?case by simp
next
  case (Cons w ws)
  have w: "\<not> isWhitespace w"
    using Cons.prems by (simp add: isWord_iff_not_isWhitespace)
  have ih: "successively (\<lambda>a b. \<not> bothWhitespace a b) (glue (Some w) ws)"
    using Cons by simp
  show ?case
    using w ih by (simp add: successively_Cons bothWhitespace_def)
qed

lemma filter_glue:
  "\<forall>w\<in>set ws. isWord w \<Longrightarrow> filter (\<lambda>n. n \<noteq> ZERO_WIDTH) (glue prev ws) = ws"
  by (induction ws arbitrary: prev) (auto simp: isWord_not_ZERO_WIDTH)

lemma values_glue: "concat (map node_value (glue prev ws)) = concat (map node_value ws)"
  by (induction ws arbitrary: prev) (auto simp: ZERO_WIDTH_def)


subsection \<open>The nodes of one chunk\<close>

lemma chunk_nodes_eq_Nil [simp]: "chunk_nodes cls e = [] \<longleftrightarrow> e = []"
proof
  assume "chunk_nodes cls e = []"
  then have "chunk_words cls (split_cjk (cjkPattern cls) e) = []"
    by (simp add: chunk_nodes_def)
  then show "e = []"
    using chunk_words_nonempty [OF cjk_shape_split_cjk, of "cjkPattern cls" e cls]
    by (auto simp: concat_split_cjk)
qed simp

lemma chunk_nodes_ends:
  assumes "e \<noteq> []"
  shows "isWord (hd (chunk_nodes cls e))" and "isWord (last (chunk_nodes cls e))"
proof -
  let ?ws = "chunk_words cls (split_cjk (cjkPattern cls) e)"
  have ne: "?ws \<noteq> []"
    using assms chunk_nodes_eq_Nil [of cls e] by (simp add: chunk_nodes_def)
  then have "hd ?ws \<in> set ?ws" "last ?ws \<in> set ?ws"
    by simp_all
  then have "isWord (hd ?ws)" "isWord (last ?ws)"
    by (auto dest: chunk_words_isWord)
  then show "isWord (hd (chunk_nodes cls e))" "isWord (last (chunk_nodes cls e))"
    using ne by (simp_all add: chunk_nodes_def hd_glue_None last_glue)
qed

lemma successively_chunk_nodes:
  "successively (\<lambda>a b. \<not> bothWhitespace a b) (chunk_nodes cls e)"
  unfolding chunk_nodes_def by (rule successively_glue) (auto dest: chunk_words_isWord)

subsection \<open>The whole sequence\<close>

lemma assemble_ends:
  "ws_shape first toks \<Longrightarrow>
   successively (\<lambda>a b. \<not> bothWhitespace a b) (assemble cls toks) \<and>
   (assemble cls toks \<noteq> [] \<longrightarrow>
      (\<not> first \<longrightarrow> isWord (hd (assemble cls toks))) \<and>
      hd (assemble cls toks) \<noteq> ZERO_WIDTH \<and> last (assemble cls toks) \<noteq> ZERO_WIDTH)"
proof (induction first toks rule: ws_shape.induct)
  case (1 first)
  then show ?case by simp
next
  case (2 first e)
  show ?case
  proof (cases "e = []")
    case True
    then show ?thesis by simp
  next
    case False
    then show ?thesis
      using chunk_nodes_ends [OF False, of cls] successively_chunk_nodes [of cls e]
      by (simp add: isWord_not_ZERO_WIDTH)
  qed
next
  case (3 first e s rest)
  let ?w = "WhitespaceNode (whitespaceValue s)"
  from "3.prems" have sh: "ws_shape False rest" and e: "first \<or> e \<noteq> []"
    by auto
  note ih = "3.IH" [OF sh]
  have w: "?w \<noteq> ZERO_WIDTH" "\<not> isWord ?w" "isWhitespace ?w"
    by (simp_all add: ZERO_WIDTH_def whitespaceValue_def)
  have tail: "successively (\<lambda>a b. \<not> bothWhitespace a b) (?w # assemble cls rest)"
    using ih by (auto simp: successively_Cons bothWhitespace_def isWord_iff_not_isWhitespace)
  have last_tail: "last (?w # assemble cls rest) \<noteq> ZERO_WIDTH"
    using ih w by simp
  show ?case
  proof (cases "e = []")
    case True
    with e have first by simp
    then show ?thesis
      using True tail last_tail w by simp
  next
    case False
    have "\<not> isWhitespace (last (chunk_nodes cls e))"
      using chunk_nodes_ends(2) [OF False, of cls] by (simp add: isWord_iff_not_isWhitespace)
    then have "successively (\<lambda>a b. \<not> bothWhitespace a b)
                 (chunk_nodes cls e @ ?w # assemble cls rest)"
      using tail successively_chunk_nodes [of cls e]
      by (simp add: successively_append_iff bothWhitespace_def)
    moreover have "isWord (hd (chunk_nodes cls e @ ?w # assemble cls rest))"
      using chunk_nodes_ends(1) [OF False, of cls] False by simp
    ultimately show ?thesis
      using last_tail by (auto simp: isWord_not_ZERO_WIDTH)
  qed
qed

lemma splitNodes_no_adjacent:
  "successively (\<lambda>a b. \<not> bothWhitespace a b) (splitNodes cls text)"
  using assemble_ends [OF ws_shape_split_whitespace, of True "text" cls]
  by (simp add: splitNodes_def)

lemma splitNodes_ends:
  "splitNodes cls text \<noteq> [] \<Longrightarrow>
   hd (splitNodes cls text) \<noteq> ZERO_WIDTH \<and> last (splitNodes cls text) \<noteq> ZERO_WIDTH"
  using assemble_ends [OF ws_shape_split_whitespace, of True "text" cls]
  by (simp add: splitNodes_def)

subsection \<open>The assertion and the result\<close>

lemma assertionsHold_iff:
  "assertionsHold nodes \<longleftrightarrow> successively (\<lambda>a b. \<not> bothWhitespace a b) nodes"
proof -
  have "(\<forall>i\<in>{1..<length nodes}. \<not> (isWhitespace (nodes ! (i - 1)) \<and> isWhitespace (nodes ! i)))
        \<longleftrightarrow> (\<forall>i. Suc i < length nodes \<longrightarrow> \<not> (isWhitespace (nodes ! i) \<and> isWhitespace (nodes ! Suc i)))"
    (is "?L \<longleftrightarrow> ?R")
  proof
    assume l: ?L
    show ?R
    proof (intro allI impI)
      fix i assume "Suc i < length nodes"
      then have "Suc i \<in> {1..<length nodes}" by simp
      from l [rule_format, OF this] show "\<not> (isWhitespace (nodes ! i) \<and> isWhitespace (nodes ! Suc i))"
        by simp
    qed
  next
    assume r: ?R
    show ?L
    proof
      fix i assume "i \<in> {1..<length nodes}"
      then obtain j where "i = Suc j" "Suc j < length nodes"
        by (cases i) auto
      with r show "\<not> (isWhitespace (nodes ! (i - 1)) \<and> isWhitespace (nodes ! i))"
        by simp
    qed
  qed
  then show ?thesis
    by (simp add: assertionsHold_def list_all_iff successively_conv_nth bothWhitespace_def)
qed

lemma splitText_eq: "splitText cls production text = Inr (splitNodes cls text)"
  by (simp add: splitText_def outerLoop_splitNodes assertionsHold_iff splitNodes_no_adjacent)

lemma split_whitespace_all_ws:
  assumes "text \<noteq> []" "\<forall>c\<in>set text. isSplitWhitespace c"
  shows "split_whitespace text = [[], text, []]"
proof -
  obtain c rest where t: "text = c # rest" using assms(1) by (cases "text") auto
  have d: "dropWhile (\<lambda>c. \<not> isSplitWhitespace c) text = c # rest"
    using assms(2) t by simp
  have a: "takeWhile (\<lambda>c. \<not> isSplitWhitespace c) text = []"
    using assms(2) t by simp
  have b: "takeWhile isSplitWhitespace rest = rest" "dropWhile isSplitWhitespace rest = []"
    using assms(2) t by simp_all
  have e: "split_whitespace [] = [[]]"
    by (simp add: split_whitespace_Nil)
  have "split_whitespace text = [[], c # rest, []]"
    unfolding split_whitespace_Cons [OF d] a b e ..
  then show ?thesis
    by (simp add: t)
qed

text \<open>
  C1. For every input string \<^verbatim>\<open>splitText\<close> returns (the development-time assertion
  never fails), and the token sequence it returns never contains two consecutive
  whitespace tokens, zero-width ones included. A non-empty input that consists of
  whitespace only yields exactly one whitespace token.
\<close>

theorem splitText_no_adjacent_whitespace:
  "\<exists>nodes. splitText cls production text = Inr nodes
     \<and> (\<forall>i. Suc i < length nodes \<longrightarrow>
            \<not> (isWhitespace (nodes ! i) \<and> isWhitespace (nodes ! Suc i)))
     \<and> (text \<noteq> [] \<and> (\<forall>c\<in>set text. isSplitWhitespace c) \<longrightarrow>
            nodes = [WhitespaceNode (if NEWLINE \<in> set text then [NEWLINE] else [SPACE])])"
proof -
  have "\<forall>i. Suc i < length (splitNodes cls text) \<longrightarrow>
            \<not> (isWhitespace (splitNodes cls text ! i) \<and> isWhitespace (splitNodes cls text ! Suc i))"
    using splitNodes_no_adjacent [of cls "text"]
    by (simp add: successively_conv_nth bothWhitespace_def)
  moreover have "text \<noteq> [] \<and> (\<forall>c\<in>set text. isSplitWhitespace c) \<longrightarrow>
      splitNodes cls text = [WhitespaceNode (if NEWLINE \<in> set text then [NEWLINE] else [SPACE])]"
    by (auto simp: splitNodes_def split_whitespace_all_ws whitespaceValue_def)
  ultimately show ?thesis
    by (simp add: splitText_eq)
qed

text \<open>
  C10. Every zero-width whitespace token in the output of \<^verbatim>\<open>splitText\<close> is strictly
  interior: it is neither the first nor the last token, and the tokens right before and
  right after it are words, so it is never next to a literal space or newline token.
\<close>

theorem splitText_zero_width_interior:
  "\<exists>nodes. splitText cls production text = Inr nodes
     \<and> (\<forall>i<length nodes. nodes ! i = WhitespaceNode [] \<longrightarrow>
            0 < i \<and> Suc i < length nodes \<and> isWord (nodes ! (i - 1)) \<and> isWord (nodes ! Suc i))"
proof -
  let ?ns = "splitNodes cls text"
  have adj: "\<And>i. Suc i < length ?ns \<Longrightarrow> \<not> (isWhitespace (?ns ! i) \<and> isWhitespace (?ns ! Suc i))"
    using splitNodes_no_adjacent [of cls "text"]
    by (simp add: successively_conv_nth bothWhitespace_def)
  have "0 < i \<and> Suc i < length ?ns \<and> isWord (?ns ! (i - 1)) \<and> isWord (?ns ! Suc i)"
    if i: "i < length ?ns" and z: "?ns ! i = WhitespaceNode []" for i
  proof -
    have ne: "?ns \<noteq> []" using i by auto
    note ends = splitNodes_ends [OF ne]
    have "i \<noteq> 0"
    proof
      assume "i = 0"
      with ends z ne show False by (simp add: hd_conv_nth ZERO_WIDTH_def)
    qed
    moreover have "i \<noteq> length ?ns - 1"
    proof
      assume "i = length ?ns - 1"
      with ends z ne show False by (simp add: last_conv_nth ZERO_WIDTH_def)
    qed
    ultimately obtain j where j: "i = Suc j" and s: "Suc i < length ?ns"
      using i by (cases i) auto
    have "\<not> isWhitespace (?ns ! j)"
      using adj [of j] i z j by simp
    moreover have "\<not> isWhitespace (?ns ! Suc i)"
      using adj [of i] s z by simp
    ultimately show ?thesis
      using j s by (simp add: isWord_iff_not_isWhitespace)
  qed
  then show ?thesis
    by (simp add: splitText_eq)
qed

subsection \<open>The characters of the nodes\<close>

lemma node_value_nonCjkWord [simp]: "node_value (nonCjkWord cls e) = e"
  by (simp add: nonCjkWord_def)

lemma node_value_cjkWord [simp]: "node_value (cjkWord cls c) = [c]"
  by (simp add: cjkWord_def)

lemma values_chunk_words:
  "cjk_shape P toks \<Longrightarrow> concat (map node_value (chunk_words cls toks)) = concat toks"
  by (induction P toks rule: cjk_shape.induct) auto

lemma values_chunk_nodes: "concat (map node_value (chunk_nodes cls e)) = e"
  by (simp add: chunk_nodes_def values_glue values_chunk_words [OF cjk_shape_split_cjk]
      concat_split_cjk)

lemma filter_whitespaceValue [simp]:
  "filter (\<lambda>c. \<not> isSplitWhitespace c) (whitespaceValue s) = []"
  by (simp add: whitespaceValue_def isSplitWhitespace_def NEWLINE_def SPACE_def)

lemma values_assemble:
  "ws_shape first toks \<Longrightarrow>
   filter (\<lambda>c. \<not> isSplitWhitespace c) (concat (map node_value (assemble cls toks)))
     = filter (\<lambda>c. \<not> isSplitWhitespace c) (concat toks)"
proof (induction first toks rule: ws_shape.induct)
  case (1 first)
  then show ?case by simp
next
  case (2 first e)
  show ?case by (simp add: values_chunk_nodes)
next
  case (3 first e s rest)
  then have "filter (\<lambda>c. \<not> isSplitWhitespace c) s = []"
    by (auto simp: filter_empty_conv)
  with 3 show ?case
    by (simp add: values_chunk_nodes)
qed

subsection \<open>The content of each word\<close>




lemma wordContent_ZERO_WIDTH [simp]: "wordContent cls ZERO_WIDTH"
  by (simp add: ZERO_WIDTH_def)



subsection \<open>Runs of non-CJK characters are not cut\<close>



lemma filter_chunk_nodes:
  "filter (\<lambda>n. n \<noteq> ZERO_WIDTH) (chunk_nodes cls e) = chunk_words cls (split_cjk (cjkPattern cls) e)"
  unfolding chunk_nodes_def by (rule filter_glue) (auto dest: chunk_words_isWord)


lemma filter_wider:
  assumes "filter (\<lambda>c. \<not> Q c) xs = filter (\<lambda>c. \<not> Q c) ys" "\<forall>c. Q c \<longrightarrow> W c"
  shows "filter (\<lambda>c. \<not> W c) xs = filter (\<lambda>c. \<not> W c) ys"
proof -
  have "filter (\<lambda>c. \<not> W c) zs = filter (\<lambda>c. \<not> W c) (filter (\<lambda>c. \<not> Q c) zs)" for zs :: "'a list"
    using assms(2) by (induction zs) auto
  then show ?thesis
    using assms(1) by metis
qed

text \<open>
  C5. Concatenating the values of all the tokens of \<^verbatim>\<open>splitText(text)\<close>, in order, gives a
  string whose non-whitespace characters are, in order, exactly the non-whitespace
  characters of \<open>text\<close>: none is dropped, none is duplicated. This holds when whitespace
  is what the separator pattern matches (tab, newline, space), and for every wider
  notion \<open>W\<close> of whitespace as well.
\<close>

theorem splitText_round_trip:
  "\<exists>nodes. splitText cls production text = Inr nodes
     \<and> filter (\<lambda>c. \<not> isSplitWhitespace c) (concat (map node_value nodes))
         = filter (\<lambda>c. \<not> isSplitWhitespace c) text
     \<and> (\<forall>W. (\<forall>c. isSplitWhitespace c \<longrightarrow> W c) \<longrightarrow>
            filter (\<lambda>c. \<not> W c) (concat (map node_value nodes)) = filter (\<lambda>c. \<not> W c) text)"
proof -
  have a: "filter (\<lambda>c. \<not> isSplitWhitespace c) (concat (map node_value (splitNodes cls text)))
         = filter (\<lambda>c. \<not> isSplitWhitespace c) text"
    using values_assemble [OF ws_shape_split_whitespace, of True "text" cls]
    by (simp add: splitNodes_def concat_split_whitespace)
  have "filter (\<lambda>c. \<not> W c) (concat (map node_value (splitNodes cls text)))
          = filter (\<lambda>c. \<not> W c) text"
    if "\<forall>c. isSplitWhitespace c \<longrightarrow> W c" for W
    using a that by (rule filter_wider)
  with a show ?thesis
    by (simp add: splitText_eq)
qed


subsection \<open>The breakpoint rule\<close>

lemma needsBreak_spec:
  "isWord b \<Longrightarrow> needsBreak (Some a) b = spec_breakpoint a b"
  by (cases a; cases b)
     (auto simp: needsBreak_def spec_breakpoint_def isBetween_def hasFullwidthSpace_def
        doubleton_eq_iff)

lemma spec_insert_breakpoints_words:
  "\<forall>w\<in>set ws. isWord w \<Longrightarrow> spec_insert_breakpoints (a # ws) = a # glue (Some a) ws"
proof (induction ws arbitrary: a)
  case Nil
  show ?case by simp
next
  case (Cons b ws)
  then have "spec_insert_breakpoints (b # ws) = b # glue (Some b) ws" and "isWord b"
    by simp_all
  then show ?case
    by (simp add: needsBreak_spec ZERO_WIDTH_def)
qed

lemma glue_None_words:
  "\<forall>w\<in>set ws. isWord w \<Longrightarrow> glue None ws = spec_insert_breakpoints ws"
  by (cases ws) (auto simp: spec_insert_breakpoints_words needsBreak_def)

lemma spec_breakpoint_whitespace [simp]:
  "spec_breakpoint a (WhitespaceNode v) = False" "spec_breakpoint (WhitespaceNode v) b = False"
  by (simp_all add: spec_breakpoint_def)

lemma spec_insert_breakpoints_append:
  "spec_insert_breakpoints (xs @ WhitespaceNode v # ys)
     = spec_insert_breakpoints xs @ WhitespaceNode v # spec_insert_breakpoints ys"
proof (induction xs rule: spec_insert_breakpoints.induct)
  case (1 a b rest)
  then show ?case by simp
next
  case (2 a)
  show ?case by (cases ys) simp_all
next
  case 3
  show ?case by (cases ys) simp_all
qed

lemma assemble_breakpoints:
  "assemble cls toks = spec_insert_breakpoints (filter (\<lambda>n. n \<noteq> ZERO_WIDTH) (assemble cls toks))"
proof (induction cls toks rule: assemble.induct)
  case (1 cls)
  show ?case by simp
next
  case (2 cls e)
  show ?case
    unfolding assemble.simps filter_chunk_nodes
    by (simp add: chunk_nodes_def glue_None_words chunk_words_isWord)
next
  case (3 cls e s rest)
  have w: "WhitespaceNode (whitespaceValue s) \<noteq> ZERO_WIDTH"
    by (simp add: ZERO_WIDTH_def whitespaceValue_def)
  have c: "chunk_nodes cls e
             = spec_insert_breakpoints (chunk_words cls (split_cjk (cjkPattern cls) e))"
    by (simp add: chunk_nodes_def glue_None_words chunk_words_isWord)
  show ?case
    using "3.IH" w
    by (simp add: filter_chunk_nodes spec_insert_breakpoints_append c [symmetric])
qed

lemma appendNode_words:
  "appendNode (nodes @ [WordNode v1 k1 l1 t1]) (WordNode v2 k2 l2 t2) =
     nodes @ [WordNode v1 k1 l1 t1]
       @ (if spec_breakpoint (WordNode v1 k1 l1 t1) (WordNode v2 k2 l2 t2)
          then [WhitespaceNode []] else [])
       @ [WordNode v2 k2 l2 t2]"
  by (simp add: appendNode_eq needsBreak_spec ZERO_WIDTH_def)

subsection \<open>Splitting concrete strings\<close>

lemma split_whitespace_no_ws:
  "\<forall>c\<in>set s. \<not> isSplitWhitespace c \<Longrightarrow> split_whitespace s = [s]"
  by (simp add: split_whitespace_Nil)

lemma split_cjk_Cons_cjk: "P c \<Longrightarrow> split_cjk P (c # s) = [] # [c] # split_cjk P s"
  by (simp add: split_cjk_Cons [of P "c # s" c s])

lemma split_cjk_Cons_other:
  "\<not> P c \<Longrightarrow> split_cjk P (c # s) = (c # hd (split_cjk P s)) # tl (split_cjk P s)"
proof (cases "dropWhile (\<lambda>c. \<not> P c) s")
  case Nil
  then have "dropWhile (\<lambda>c. \<not> P c) (c # s) = []" if "\<not> P c"
    using that by simp
  then show "\<not> P c \<Longrightarrow> ?thesis"
    by (simp add: split_cjk_Nil [OF Nil] split_cjk_Nil)
next
  case (Cons d rest)
  assume c: "\<not> P c"
  then have "dropWhile (\<lambda>c. \<not> P c) (c # s) = d # rest"
    using Cons by simp
  from split_cjk_Cons [OF this] split_cjk_Cons [OF Cons] c show ?thesis
    by simp
qed

lemma sampleTables_simps [simp]:
  "cjkPattern sampleTables c \<longleftrightarrow>
     (0x3000 \<le> c \<and> c \<le> 0x30FF) \<or> (0x4E00 \<le> c \<and> c \<le> 0x9FFF)
     \<or> (0xAC00 \<le> c \<and> c \<le> 0xD7A3) \<or> (0xFF01 \<le> c \<and> c \<le> 0xFF60)"
  "kRegex sampleTables c \<longleftrightarrow> 0xAC00 \<le> c \<and> c \<le> 0xD7A3"
  "punctuationPattern sampleTables c \<longleftrightarrow>
     (0x21 \<le> c \<and> c \<le> 0x2F) \<or> (0x3A \<le> c \<and> c \<le> 0x40)
     \<or> (0x5B \<le> c \<and> c \<le> 0x60) \<or> (0x7B \<le> c \<and> c \<le> 0x7E)
     \<or> (0x3001 \<le> c \<and> c \<le> 0x3003) \<or> c = 0xFF01 \<or> c = 0xFF0C"
  by (simp_all add: sampleTables_def)

text \<open>
  C2 (as the code has it). For tables that classify U+4E16 and U+754C as CJK
  characters that are neither punctuation nor Korean, and the letters of "hello" as
  non-CJK, \<^verbatim>\<open>splitText\<close> of "hello" followed by U+4E16 U+754C returns five tokens: the
  word "hello", a zero-width whitespace, the word U+4E16, a zero-width whitespace, the
  word U+754C. The two CJ letters are separated by a zero-width whitespace token.
\<close>

theorem splitText_hello_world:
  assumes "\<not> cjkPattern cls 0x68" "\<not> cjkPattern cls 0x65" "\<not> cjkPattern cls 0x6C"
      "\<not> cjkPattern cls 0x6F"
    and "cjkPattern cls 0x4E16" "\<not> punctuationPattern cls 0x4E16" "\<not> kRegex cls 0x4E16"
    and "cjkPattern cls 0x754C" "\<not> punctuationPattern cls 0x754C" "\<not> kRegex cls 0x754C"
  shows "splitText cls production text_hello_world =
     Inr [WordNode [0x68, 0x65, 0x6C, 0x6C, 0x6F] KIND_NON_CJK
            (punctuationPattern cls 0x68) (punctuationPattern cls 0x6F),
          WhitespaceNode [],
          WordNode [0x4E16] KIND_CJ_LETTER False False,
          WhitespaceNode [],
          WordNode [0x754C] KIND_CJ_LETTER False False]"
proof -
  have w: "split_whitespace text_hello_world = [text_hello_world]"
    by (rule split_whitespace_no_ws) (simp add: text_hello_world_def isSplitWhitespace_def)
  have c: "split_cjk (cjkPattern cls) text_hello_world
             = [[0x68, 0x65, 0x6C, 0x6C, 0x6F], [0x4E16], [], [0x754C], []]"
    using assms
    by (simp add: text_hello_world_def split_cjk_Cons_other split_cjk_Cons_cjk split_cjk_empty)
  show ?thesis
    using assms
    by (simp add: splitText_eq splitNodes_def w chunk_nodes_def c nonCjkWord_def cjkWord_def
        needsBreak_def isBetween_def hasFullwidthSpace_def FULLWIDTH_SPACE_def ZERO_WIDTH_def)
qed

theorem splitText_hello_world_witness:
  "splitText sampleTables False text_hello_world =
     Inr [WordNode [0x68, 0x65, 0x6C, 0x6C, 0x6F] KIND_NON_CJK False False,
          WhitespaceNode [],
          WordNode [0x4E16] KIND_CJ_LETTER False False,
          WhitespaceNode [],
          WordNode [0x754C] KIND_CJ_LETTER False False]"
  using splitText_hello_world [of sampleTables False] by simp

theorem splitText_hello_world_four_tokens_counterexample:
  "splitText sampleTables False text_hello_world \<noteq>
     Inr [WordNode [0x68, 0x65, 0x6C, 0x6C, 0x6F] KIND_NON_CJK False False,
          WhitespaceNode [],
          WordNode [0x4E16] KIND_CJ_LETTER False False,
          WordNode [0x754C] KIND_CJ_LETTER False False]"
  by (simp add: splitText_def split_whitespace.simps split_cjk.simps text_hello_world_def
      isSplitWhitespace_def appendNode_def isBetween_def regex_test_def FULLWIDTH_SPACE_def
      assertionsHold_def NEWLINE_def SPACE_def)

text \<open>
  C3. When \<^verbatim>\<open>appendNode\<close> appends a word right after a word, it inserts a zero-width
  whitespace token between them if and only if the unordered pair of their kinds is not
  exactly \<open>{NonCjk, CjkPunctuation}\<close> and neither value contains U+3000. The whole
  output of \<^verbatim>\<open>splitText\<close> obeys the rule: it is what the rule produces from the output
  with its zero-width tokens removed. In particular, for tables that classify U+3002 as
  CJK punctuation and "f", "o" as non-CJK, "foo" followed by U+3002 gives two adjacent
  word tokens and no zero-width whitespace.
\<close>

theorem appendNode_breakpoint_rule:
  "appendNode (nodes @ [WordNode v1 k1 l1 t1]) (WordNode v2 k2 l2 t2) =
     (if {k1, k2} \<noteq> {KIND_NON_CJK, KIND_CJK_PUNCTUATION}
         \<and> FULLWIDTH_SPACE \<notin> set v1 \<and> FULLWIDTH_SPACE \<notin> set v2
      then nodes @ [WordNode v1 k1 l1 t1, WhitespaceNode [], WordNode v2 k2 l2 t2]
      else nodes @ [WordNode v1 k1 l1 t1, WordNode v2 k2 l2 t2])
   \<and> (\<exists>out. splitText cls production text = Inr out
          \<and> out = spec_insert_breakpoints (filter (\<lambda>n. n \<noteq> WhitespaceNode []) out))
   \<and> (\<not> cjkPattern cls 0x66 \<and> \<not> cjkPattern cls 0x6F
        \<and> cjkPattern cls 0x3002 \<and> punctuationPattern cls 0x3002 \<longrightarrow>
      splitText cls production text_foo_stop =
        Inr [WordNode [0x66, 0x6F, 0x6F] KIND_NON_CJK
               (punctuationPattern cls 0x66) (punctuationPattern cls 0x6F),
             WordNode [0x3002] KIND_CJK_PUNCTUATION True True])"
proof (intro conjI impI)
  have "{Some k1, Some k2} = {Some KIND_NON_CJK, Some KIND_CJK_PUNCTUATION}
          \<longleftrightarrow> {k1, k2} = {KIND_NON_CJK, KIND_CJK_PUNCTUATION}"
    by (auto simp: doubleton_eq_iff)
  then show "appendNode (nodes @ [WordNode v1 k1 l1 t1]) (WordNode v2 k2 l2 t2) =
     (if {k1, k2} \<noteq> {KIND_NON_CJK, KIND_CJK_PUNCTUATION}
         \<and> FULLWIDTH_SPACE \<notin> set v1 \<and> FULLWIDTH_SPACE \<notin> set v2
      then nodes @ [WordNode v1 k1 l1 t1, WhitespaceNode [], WordNode v2 k2 l2 t2]
      else nodes @ [WordNode v1 k1 l1 t1, WordNode v2 k2 l2 t2])"
    by (simp add: appendNode_words spec_breakpoint_def)
next
  show "\<exists>out. splitText cls production text = Inr out
          \<and> out = spec_insert_breakpoints (filter (\<lambda>n. n \<noteq> WhitespaceNode []) out)"
    using assemble_breakpoints [of cls "split_whitespace text"]
    by (simp add: splitText_eq splitNodes_def ZERO_WIDTH_def)
next
  assume a: "\<not> cjkPattern cls 0x66 \<and> \<not> cjkPattern cls 0x6F
        \<and> cjkPattern cls 0x3002 \<and> punctuationPattern cls 0x3002"
  have w: "split_whitespace text_foo_stop = [text_foo_stop]"
    by (rule split_whitespace_no_ws) (simp add: text_foo_stop_def isSplitWhitespace_def)
  have c: "split_cjk (cjkPattern cls) text_foo_stop = [[0x66, 0x6F, 0x6F], [0x3002], []]"
    using a
    by (simp add: text_foo_stop_def split_cjk_Cons_other split_cjk_Cons_cjk split_cjk_empty)
  show "splitText cls production text_foo_stop =
        Inr [WordNode [0x66, 0x6F, 0x6F] KIND_NON_CJK
               (punctuationPattern cls 0x66) (punctuationPattern cls 0x6F),
             WordNode [0x3002] KIND_CJK_PUNCTUATION True True]"
    using a
    by (simp add: splitText_eq splitNodes_def w chunk_nodes_def c nonCjkWord_def cjkWord_def
        needsBreak_def isBetween_def hasFullwidthSpace_def FULLWIDTH_SPACE_def ZERO_WIDTH_def)
qed

theorem appendNode_breakpoint_rule_witness:
  "appendNode [WordNode [0x66, 0x6F, 0x6F] KIND_NON_CJK False False]
       (WordNode [0x3002] KIND_CJK_PUNCTUATION True True)
     = [WordNode [0x66, 0x6F, 0x6F] KIND_NON_CJK False False,
        WordNode [0x3002] KIND_CJK_PUNCTUATION True True]
   \<and> appendNode [WordNode [0x4E16] KIND_CJ_LETTER False False]
       (WordNode [0x754C] KIND_CJ_LETTER False False)
     = [WordNode [0x4E16] KIND_CJ_LETTER False False, WhitespaceNode [],
        WordNode [0x754C] KIND_CJ_LETTER False False]
   \<and> splitText sampleTables False text_foo_stop =
        Inr [WordNode [0x66, 0x6F, 0x6F] KIND_NON_CJK False False,
             WordNode [0x3002] KIND_CJK_PUNCTUATION True True]"
  using appendNode_breakpoint_rule
          [of "[]" "[0x66, 0x6F, 0x6F]" KIND_NON_CJK False False
              "[0x3002]" KIND_CJK_PUNCTUATION True True sampleTables False "[]"]
        appendNode_breakpoint_rule
          [of "[]" "[0x4E16]" KIND_CJ_LETTER False False
              "[0x754C]" KIND_CJ_LETTER False False sampleTables False "[]"]
  by (simp add: FULLWIDTH_SPACE_def doubleton_eq_iff)

subsection \<open>Concrete runs\<close>

lemma sample_hello_world:
  "splitText sampleTables False text_hello_world =
     Inr [WordNode [0x68, 0x65, 0x6C, 0x6C, 0x6F] KIND_NON_CJK False False,
          WhitespaceNode [],
          WordNode [0x4E16] KIND_CJ_LETTER False False,
          WhitespaceNode [],
          WordNode [0x754C] KIND_CJ_LETTER False False]"
  by code_simp

lemma sample_a_b:
  "splitText sampleTables False [0x61, 0x20, 0x20, 0x62] =
     Inr [WordNode [0x61] KIND_NON_CJK False False, WhitespaceNode [0x20],
          WordNode [0x62] KIND_NON_CJK False False]"
  by code_simp

theorem splitText_no_adjacent_whitespace_witness:
  "splitText sampleTables False [0x20, 0x0A] = Inr [WhitespaceNode [0x0A]]
   \<and> (\<exists>nodes. splitText sampleTables False [0x61, 0x20, 0x20, 0x62] = Inr nodes
          \<and> length nodes = 3
          \<and> \<not> (isWhitespace (nodes ! 0) \<and> isWhitespace (nodes ! 1))
          \<and> \<not> (isWhitespace (nodes ! 1) \<and> isWhitespace (nodes ! 2)))"
  using splitText_no_adjacent_whitespace [of sampleTables False "[0x20, 0x0A]"]
        splitText_no_adjacent_whitespace [of sampleTables False "[0x61, 0x20, 0x20, 0x62]"]
  by (auto simp: isSplitWhitespace_def NEWLINE_def sample_a_b)

theorem splitText_zero_width_interior_witness:
  "\<exists>nodes. splitText sampleTables False text_hello_world = Inr nodes
     \<and> nodes ! 1 = WhitespaceNode [] \<and> 1 < length nodes
     \<and> Suc 1 < length nodes \<and> isWord (nodes ! 0) \<and> isWord (nodes ! Suc 1)"
  using splitText_zero_width_interior [of sampleTables False text_hello_world]
  by (auto simp: sample_hello_world)


section \<open>Properties of the list and link functions\<close>

subsection \<open>The item pattern\<close>

lemma isRegexDigit_unat: "isRegexDigit c \<longleftrightarrow> 48 \<le> unat c \<and> unat c \<le> 57"
  by (simp add: isRegexDigit_def word_le_nat_alt)

lemma isRegexSpace_unat:
  "isRegexSpace c \<longleftrightarrow>
     (9 \<le> unat c \<and> unat c \<le> 13) \<or> unat c = 32 \<or> unat c = 160 \<or> unat c = 5760
     \<or> (8192 \<le> unat c \<and> unat c \<le> 8202) \<or> unat c = 8232 \<or> unat c = 8233
     \<or> unat c = 8239 \<or> unat c = 8287 \<or> unat c = 12288 \<or> unat c = 65279"
  by (simp add: isRegexSpace_def word_le_nat_alt word_unat_eq_iff)

lemma isMarker_unat: "isMarker c \<longleftrightarrow> unat c = 46 \<or> unat c = 41"
  by (simp add: isMarker_def word_unat_eq_iff)

lemma digit_not_space: "isRegexDigit c \<Longrightarrow> \<not> isRegexSpace c"
  unfolding isRegexDigit_unat isRegexSpace_unat by arith

lemma marker_not_digit: "isMarker c \<Longrightarrow> \<not> isRegexDigit c"
  unfolding isRegexDigit_unat isMarker_unat by arith

lemma matchItem_decomposed:
  assumes "\<forall>c\<in>set ws. isRegexSpace c" "ds \<noteq> []" "\<forall>c\<in>set ds. isRegexDigit c" "isMarker m"
  shows "matchItem (ws @ ds @ m # rest)
           = Some \<lparr> numberText = ds, marker = m, leadingSpaces = takeWhile isRegexSpace rest \<rparr>"
proof -
  obtain d ds' where ds: "ds = d # ds'"
    using assms(2) by (cases ds) auto
  have d: "\<not> isRegexSpace d"
    using assms(3) ds by (simp add: digit_not_space)
  have a: "dropWhile isRegexSpace (ws @ ds @ m # rest) = ds @ m # rest"
    using assms(1) d by (simp add: ds)
  have m: "\<not> isRegexDigit m"
    using assms(4) by (rule marker_not_digit)
  have t: "takeWhile isRegexDigit (ds @ m # rest) = ds"
    using assms(3) m by simp
  have r: "dropWhile isRegexDigit (ds @ m # rest) = m # rest"
    using assms(3) m by simp
  show ?thesis
    using assms(2,4) by (simp add: matchItem_def a t r)
qed

lemma matchItem_SomeD:
  assumes "matchItem s = Some info"
  shows "\<exists>ws rest. s = ws @ numberText info @ marker info # rest
           \<and> (\<forall>c\<in>set ws. isRegexSpace c) \<and> numberText info \<noteq> []
           \<and> (\<forall>c\<in>set (numberText info). isRegexDigit c) \<and> isMarker (marker info)
           \<and> leadingSpaces info = takeWhile isRegexSpace rest"
proof -
  let ?a = "dropWhile isRegexSpace s"
  let ?ds = "takeWhile isRegexDigit ?a"
  from assms have ne: "?ds \<noteq> []"
    by (auto simp: matchItem_def Let_def split: if_splits)
  from assms obtain m rest where r: "dropWhile isRegexDigit ?a = m # rest" and m: "isMarker m"
    and i: "info = \<lparr> numberText = ?ds, marker = m, leadingSpaces = takeWhile isRegexSpace rest \<rparr>"
    by (auto simp: matchItem_def Let_def split: if_splits list.splits)
  have "s = takeWhile isRegexSpace s @ ?a"
    by simp
  also have "?a = ?ds @ m # rest"
    using takeWhile_dropWhile_id [of isRegexDigit ?a] r by simp
  finally have "s = takeWhile isRegexSpace s @ numberText info @ marker info # rest"
    by (simp add: i)
  moreover have "\<forall>c\<in>set (takeWhile isRegexSpace s). isRegexSpace c"
    by (auto dest: set_takeWhileD)
  moreover have "\<forall>c\<in>set ?ds. isRegexDigit c"
    by (auto dest: set_takeWhileD)
  ultimately show ?thesis
    using ne m i by (intro exI [of _ "takeWhile isRegexSpace s"] exI [of _ rest]) simp
qed

lemma matchItem_None_iff:
  "matchItem s = None \<longleftrightarrow>
     \<not> (\<exists>ws ds m rest. s = ws @ ds @ m # rest \<and> (\<forall>c\<in>set ws. isRegexSpace c) \<and> ds \<noteq> []
           \<and> (\<forall>c\<in>set ds. isRegexDigit c) \<and> isMarker m)"
proof
  assume n: "matchItem s = None"
  show "\<not> (\<exists>ws ds m rest. s = ws @ ds @ m # rest \<and> (\<forall>c\<in>set ws. isRegexSpace c) \<and> ds \<noteq> []
           \<and> (\<forall>c\<in>set ds. isRegexDigit c) \<and> isMarker m)"
  proof
    assume "\<exists>ws ds m rest. s = ws @ ds @ m # rest \<and> (\<forall>c\<in>set ws. isRegexSpace c) \<and> ds \<noteq> []
           \<and> (\<forall>c\<in>set ds. isRegexDigit c) \<and> isMarker m"
    then obtain ws ds m rest where "s = ws @ ds @ m # rest" "\<forall>c\<in>set ws. isRegexSpace c"
      "ds \<noteq> []" "\<forall>c\<in>set ds. isRegexDigit c" "isMarker m"
      by blast
    then have "matchItem s \<noteq> None"
      by (simp add: matchItem_decomposed)
    with n show False by simp
  qed
next
  assume d: "\<not> (\<exists>ws ds m rest. s = ws @ ds @ m # rest \<and> (\<forall>c\<in>set ws. isRegexSpace c) \<and> ds \<noteq> []
           \<and> (\<forall>c\<in>set ds. isRegexDigit c) \<and> isMarker m)"
  show "matchItem s = None"
  proof (cases "matchItem s")
    case None
    then show ?thesis .
  next
    case (Some info)
    from matchItem_SomeD [OF this] d show ?thesis
      by blast
  qed
qed

text \<open>
  C8 (as the code has it). \<^verbatim>\<open>getOrderedListItemInfo\<close> reads the slice of the source
  between the start and end offsets of the item. When the slice begins with a possibly
  empty run of whitespace, a non-empty run of digits and a marker character (\<open>.\<close> or
  \<open>)\<close>), it returns the digits, the marker and the longest run of whitespace after the
  marker, which may be empty. It fails with a \<^verbatim>\<open>TypeError\<close>, returning nothing, exactly
  when the slice does not begin with whitespace, digits and a marker in that way:
  whitespace after the marker is not required.
\<close>

theorem getOrderedListItemInfo_pattern:
  "(\<forall>ws ds m rest.
      slice originalText (startOffset item) (endOffset item) = ws @ ds @ m # rest
      \<and> (\<forall>c\<in>set ws. isRegexSpace c) \<and> ds \<noteq> [] \<and> (\<forall>c\<in>set ds. isRegexDigit c) \<and> isMarker m
      \<longrightarrow> getOrderedListItemInfo item originalText
            = Inr \<lparr> numberText = ds, marker = m,
                    leadingSpaces = takeWhile isRegexSpace rest \<rparr>)
   \<and> (getOrderedListItemInfo item originalText = Inl TypeError
        \<longleftrightarrow> \<not> (\<exists>ws ds m rest.
                 slice originalText (startOffset item) (endOffset item) = ws @ ds @ m # rest
                 \<and> (\<forall>c\<in>set ws. isRegexSpace c) \<and> ds \<noteq> [] \<and> (\<forall>c\<in>set ds. isRegexDigit c)
                 \<and> isMarker m))
   \<and> (\<forall>e. getOrderedListItemInfo item originalText = Inl e \<longrightarrow> e = TypeError)"
proof (intro conjI allI impI)
  fix ws ds m rest
  assume "slice originalText (startOffset item) (endOffset item) = ws @ ds @ m # rest
      \<and> (\<forall>c\<in>set ws. isRegexSpace c) \<and> ds \<noteq> [] \<and> (\<forall>c\<in>set ds. isRegexDigit c) \<and> isMarker m"
  then show "getOrderedListItemInfo item originalText
            = Inr \<lparr> numberText = ds, marker = m, leadingSpaces = takeWhile isRegexSpace rest \<rparr>"
    by (simp add: getOrderedListItemInfo_def matchItem_decomposed)
next
  have "getOrderedListItemInfo item originalText = Inl TypeError
          \<longleftrightarrow> matchItem (slice originalText (startOffset item) (endOffset item)) = None"
    by (simp add: getOrderedListItemInfo_def split: option.splits)
  then show "getOrderedListItemInfo item originalText = Inl TypeError
        \<longleftrightarrow> \<not> (\<exists>ws ds m rest.
                 slice originalText (startOffset item) (endOffset item) = ws @ ds @ m # rest
                 \<and> (\<forall>c\<in>set ws. isRegexSpace c) \<and> ds \<noteq> [] \<and> (\<forall>c\<in>set ds. isRegexDigit c)
                 \<and> isMarker m)"
    by (simp only: matchItem_None_iff)
next
  fix e
  assume "getOrderedListItemInfo item originalText = Inl e"
  then show "e = TypeError"
    by (simp add: getOrderedListItemInfo_def split: option.splits)
qed

theorem getOrderedListItemInfo_pattern_witness:
  "getOrderedListItemInfo item_one_dot text_one_dot
     = Inr \<lparr> numberText = [0x31], marker = 0x2E, leadingSpaces = [] \<rparr>"
proof -
  have "slice text_one_dot (startOffset item_one_dot) (endOffset item_one_dot)
          = [] @ [0x31] @ 0x2E # []"
    by (simp add: slice_def text_one_dot_def item_one_dot_def)
  then show ?thesis
    using getOrderedListItemInfo_pattern
            [of text_one_dot item_one_dot, THEN conjunct1, rule_format, of "[]" "[0x31]" "0x2E" "[]"]
    by (simp add: isRegexDigit_def isMarker_def)
qed

theorem getOrderedListItemInfo_spec_pattern_counterexample:
  "\<not> (getOrderedListItemInfo item_one_dot text_one_dot = Inl TypeError
        \<longleftrightarrow> \<not> spec_item_pattern
                (slice text_one_dot (startOffset item_one_dot) (endOffset item_one_dot)))"
  by (simp add: getOrderedListItemInfo_def matchItem_def spec_item_pattern_def slice_def
      text_one_dot_def item_one_dot_def isRegexSpace_def isRegexDigit_def isMarker_def)

text \<open>
  C4. \<^verbatim>\<open>hasGitDiffFriendlyOrderedList\<close> returns false for a list that is not marked
  ordered and for an ordered list with fewer than two items. For an ordered list whose
  first two items (and the third, when it is read) match the item pattern: if the first
  number is 0 and there are more than two items, it returns true iff the second and the
  third numbers are both 1; otherwise it returns true iff the second number is 1.
\<close>

theorem hasGitDiffFriendlyOrderedList_rule:
  "(\<not> ordered node \<longrightarrow> hasGitDiffFriendlyOrderedList node originalText = Inr False)
   \<and> (ordered node \<and> children node = Some cs \<and> length cs < 2 \<longrightarrow>
        hasGitDiffFriendlyOrderedList node originalText = Inr False)
   \<and> (ordered node \<and> children node = Some (c0 # c1 # rest)
        \<and> getOrderedListItemInfo c0 originalText = Inr i0
        \<and> getOrderedListItemInfo c1 originalText = Inr i1 \<longrightarrow>
        (if Number (numberText i0) = 0 \<and> rest \<noteq> []
         then (\<forall>i2. getOrderedListItemInfo (hd rest) originalText = Inr i2 \<longrightarrow>
                 hasGitDiffFriendlyOrderedList node originalText
                   = Inr (Number (numberText i1) = 1 \<and> Number (numberText i2) = 1))
         else hasGitDiffFriendlyOrderedList node originalText
                = Inr (Number (numberText i1) = 1)))"
proof (intro conjI impI)
  assume "\<not> ordered node"
  then show "hasGitDiffFriendlyOrderedList node originalText = Inr False"
    by (simp add: hasGitDiffFriendlyOrderedList_def)
next
  assume "ordered node \<and> children node = Some cs \<and> length cs < 2"
  then show "hasGitDiffFriendlyOrderedList node originalText = Inr False"
    by (simp add: hasGitDiffFriendlyOrderedList_def)
next
  assume a: "ordered node \<and> children node = Some (c0 # c1 # rest)
        \<and> getOrderedListItemInfo c0 originalText = Inr i0
        \<and> getOrderedListItemInfo c1 originalText = Inr i1"
  show "if Number (numberText i0) = 0 \<and> rest \<noteq> []
         then (\<forall>i2. getOrderedListItemInfo (hd rest) originalText = Inr i2 \<longrightarrow>
                 hasGitDiffFriendlyOrderedList node originalText
                   = Inr (Number (numberText i1) = 1 \<and> Number (numberText i2) = 1))
         else hasGitDiffFriendlyOrderedList node originalText
                = Inr (Number (numberText i1) = 1)"
  proof (cases rest)
    case Nil
    with a show ?thesis
      by (simp add: hasGitDiffFriendlyOrderedList_def)
  next
    case (Cons c2 rest')
    with a show ?thesis
      by (auto simp: hasGitDiffFriendlyOrderedList_def)
  qed
qed

lemma item_at_info:
  "getOrderedListItemInfo (item_at 0) text_items
     = Inr \<lparr> numberText = [0x30], marker = 0x2E, leadingSpaces = [0x20] \<rparr>"
  "getOrderedListItemInfo (item_at 5) text_items
     = Inr \<lparr> numberText = [0x31], marker = 0x2E, leadingSpaces = [0x20] \<rparr>"
  "getOrderedListItemInfo (item_at 10) text_items
     = Inr \<lparr> numberText = [0x31], marker = 0x2E, leadingSpaces = [0x20] \<rparr>"
  "getOrderedListItemInfo (item_at 15) text_items
     = Inr \<lparr> numberText = [0x32], marker = 0x2E, leadingSpaces = [0x20] \<rparr>"
  by (simp_all add: getOrderedListItemInfo_def matchItem_def slice_def text_items_def item_at_def
      isRegexSpace_def isRegexDigit_def isMarker_def)

lemma Number_digit [simp]: "Number [0x30] = 0" "Number [0x31] = 1" "Number [0x32] = 2"
  by (simp_all add: Number_def)

theorem hasGitDiffFriendlyOrderedList_rule_witness:
  "hasGitDiffFriendlyOrderedList (list_of True [0, 5, 10]) text_items = Inr True
   \<and> hasGitDiffFriendlyOrderedList (list_of True [0, 5, 15]) text_items = Inr False
   \<and> hasGitDiffFriendlyOrderedList (list_of True [5, 10]) text_items = Inr True
   \<and> hasGitDiffFriendlyOrderedList (list_of True [5, 15]) text_items = Inr False
   \<and> hasGitDiffFriendlyOrderedList (list_of True [5]) text_items = Inr False
   \<and> hasGitDiffFriendlyOrderedList (list_of False [5, 10]) text_items = Inr False"
  using hasGitDiffFriendlyOrderedList_rule
          [of "list_of True [0, 5, 10]" text_items "[]" "item_at 0" "item_at 5" "[item_at 10]"
              "\<lparr> numberText = [0x30], marker = 0x2E, leadingSpaces = [0x20] \<rparr>"
              "\<lparr> numberText = [0x31], marker = 0x2E, leadingSpaces = [0x20] \<rparr>"]
        hasGitDiffFriendlyOrderedList_rule
          [of "list_of True [0, 5, 15]" text_items "[]" "item_at 0" "item_at 5" "[item_at 15]"
              "\<lparr> numberText = [0x30], marker = 0x2E, leadingSpaces = [0x20] \<rparr>"
              "\<lparr> numberText = [0x31], marker = 0x2E, leadingSpaces = [0x20] \<rparr>"]
        hasGitDiffFriendlyOrderedList_rule
          [of "list_of True [5, 10]" text_items "[]" "item_at 5" "item_at 10" "[]"
              "\<lparr> numberText = [0x31], marker = 0x2E, leadingSpaces = [0x20] \<rparr>"
              "\<lparr> numberText = [0x31], marker = 0x2E, leadingSpaces = [0x20] \<rparr>"]
        hasGitDiffFriendlyOrderedList_rule
          [of "list_of True [5, 15]" text_items "[]" "item_at 5" "item_at 15" "[]"
              "\<lparr> numberText = [0x31], marker = 0x2E, leadingSpaces = [0x20] \<rparr>"
              "\<lparr> numberText = [0x32], marker = 0x2E, leadingSpaces = [0x20] \<rparr>"]
        hasGitDiffFriendlyOrderedList_rule
          [of "list_of True [5]" text_items "[item_at 5]"]
        hasGitDiffFriendlyOrderedList_rule
          [of "list_of False [5, 10]" text_items]
  by (simp add: list_of_def item_at_info)

text \<open>
  C7 (as the code has it). \<^verbatim>\<open>isAutolink\<close> returns true iff the node is a link with
  exactly one child whose recorded start and end positions equal the link's own. It
  returns false for an absent node, for a node that is not a link, and for a link whose
  children sequence is present and is empty, has several children, or has one child with
  different positions. For a link whose children sequence is absent it does not return:
  reading the length of the missing sequence throws a \<^verbatim>\<open>TypeError\<close>.
\<close>

theorem isAutolink_rule:
  "(isAutolink n = Inr True \<longleftrightarrow>
      (\<exists>node child. n = Some node \<and> ntype node = ''link'' \<and> children node = Some [child]
         \<and> startOffset child = startOffset node \<and> endOffset child = endOffset node))
   \<and> (isAutolink n = Inr False \<longleftrightarrow>
        n = None
        \<or> (\<exists>node. n = Some node \<and> ntype node \<noteq> ''link'')
        \<or> (\<exists>node cs. n = Some node \<and> ntype node = ''link'' \<and> children node = Some cs
              \<and> (length cs \<noteq> 1
                  \<or> startOffset (cs ! 0) \<noteq> startOffset node
                  \<or> endOffset (cs ! 0) \<noteq> endOffset node)))
   \<and> (isAutolink n = Inl TypeError \<longleftrightarrow>
        (\<exists>node. n = Some node \<and> ntype node = ''link'' \<and> children node = None))"
proof (cases n)
  case None
  then show ?thesis by (simp add: isAutolink_def)
next
  case (Some node)
  show ?thesis
  proof (cases "children node")
    case None
    with Some show ?thesis
      by (auto simp: isAutolink_def)
  next
    case cs: (Some cs)
    have one: "length cs = 1 \<longleftrightarrow> cs = [cs ! 0]"
      by (cases cs) auto
    show ?thesis
      using Some cs one
      by (auto simp: isAutolink_def locStart_def locEnd_def Let_def)
  qed
qed

theorem isAutolink_rule_witness:
  "isAutolink (Some (link_with (Some [text_span 0 20]))) = Inr True
   \<and> isAutolink (Some (link_with (Some [text_span 1 19]))) = Inr False
   \<and> isAutolink (Some (link_with (Some []))) = Inr False
   \<and> isAutolink (Some (text_span 0 20)) = Inr False
   \<and> isAutolink None = Inr False"
  using isAutolink_rule [of "Some (link_with (Some [text_span 0 20]))"]
        isAutolink_rule [of "Some (link_with (Some [text_span 1 19]))"]
        isAutolink_rule [of "Some (link_with (Some []))"]
        isAutolink_rule [of "Some (text_span 0 20)"]
        isAutolink_rule [of None]
  by (simp add: link_with_def text_span_def)

theorem isAutolink_absent_children_counterexample:
  "isAutolink (Some (link_with None)) \<noteq> Inr False"
  by (simp add: isAutolink_def link_with_def)

section \<open>Properties of \<^verbatim>\<open>mapAst\<close>\<close>

subsection \<open>The frame of \<^verbatim>\<open>mapAst\<close>\<close>





lemma length_set_children [simp]: "length (set_children h a arr) = length h"
  by (simp add: set_children_def split: option.splits cell.splits)





subsection \<open>What the visit function receives\<close>







subsection \<open>Trees read from the store\<close>






subsection \<open>Mapping the identity\<close>









theorem splitText_round_trip_witness:
  "\<exists>nodes. splitText sampleTables False [0x61, 0x20, 0x20, 0x62] = Inr nodes
     \<and> filter (\<lambda>c. \<not> isSplitWhitespace c) (concat (map node_value nodes)) = [0x61, 0x62]
     \<and> filter (\<lambda>c. \<not> isRegexSpace c) (concat (map node_value nodes)) = [0x61, 0x62]"
proof -
  have w: "\<forall>c. isSplitWhitespace c \<longrightarrow> isRegexSpace c"
    by (auto simp: isSplitWhitespace_def isRegexSpace_def)
  from splitText_round_trip [of sampleTables False "[0x61, 0x20, 0x20, 0x62]"]
  obtain nodes where n: "splitText sampleTables False [0x61, 0x20, 0x20, 0x62] = Inr nodes"
    and a: "filter (\<lambda>c. \<not> isSplitWhitespace c) (concat (map node_value nodes))
              = filter (\<lambda>c. \<not> isSplitWhitespace c) [0x61, 0x20, 0x20, 0x62]"
    and b: "\<forall>W. (\<forall>c. isSplitWhitespace c \<longrightarrow> W c) \<longrightarrow>
              filter (\<lambda>c. \<not> W c) (concat (map node_value nodes))
                = filter (\<lambda>c. \<not> W c) [0x61, 0x20, 0x20, 0x62]"
    by blast
  from b w
  have "filter (\<lambda>c. \<not> isRegexSpace c) (concat (map node_value nodes))
          = filter (\<lambda>c. \<not> isRegexSpace c) [0x61, 0x20, 0x20, 0x62]"
    by blast
  then have "filter (\<lambda>c. \<not> isRegexSpace c) (concat (map node_value nodes)) = [0x61, 0x62]"
    by (simp add: isRegexSpace_def)
  moreover have "filter (\<lambda>c. \<not> isSplitWhitespace c) (concat (map node_value nodes)) = [0x61, 0x62]"
    using a by (simp add: isSplitWhitespace_def)
  ultimately show ?thesis
    using n by blast
qed

end
